theory Spec2Isabelle
  imports Main "HOL-Library.Word" "HOL-Library.Signed_Division"
begin

unbundle bit_operations_syntax

section \<open>The polling pass of the Arduino front end: \<^verbatim>\<open>arduino_bluepad32.cpp\<close>\<close>

subsection \<open>Data\<close>

text \<open>
  The gamepad data that \<^verbatim>\<open>arduino_get_gamepad_data\<close> fills in. Its struct is declared in
  a header that is not among the sources; \<^verbatim>\<open>update\<close> reads one member, \<^verbatim>\<open>idx\<close>, and
  compares it with -1. Every other member is kept in \<open>members\<close>, whose type is a parameter.
\<close>

record 'd gamepad_data =
  idx :: int
  members :: 'd

text \<open>The class \<^verbatim>\<open>Gamepad\<close>: the members \<^verbatim>\<open>_state\<close> and \<^verbatim>\<open>_connected\<close>.\<close>

record 'd gamepad =
  state :: "'d gamepad_data"
  connected :: bool

text \<open>
  A callback receives \<^verbatim>\<open>&_gamepads[i]\<close>: the slot the pointer refers to and the object it
  points at, as it is when the call is made. The accessors of \<^verbatim>\<open>Gamepad\<close> only read, so
  a callback changes the application's own state \<open>'u\<close>; and through the global object
  \<^verbatim>\<open>BP32\<close> it can call \<^verbatim>\<open>setup\<close>: besides the application state it leaves, a callback
  returns the pair of callbacks it registered last during the call, or \<open>None\<close> when it
  registered nothing. A callback that calls \<^verbatim>\<open>update\<close> itself is outside the model. An
  empty \<^verbatim>\<open>GamepadCallback\<close> is the value \<open>None\<close> of the option type.
\<close>

datatype ('d, 'u) GamepadCallback =
  GamepadCallback
    (invoke: "nat \<Rightarrow> 'd gamepad \<Rightarrow> 'u \<Rightarrow>
                'u \<times> (('d, 'u) GamepadCallback option \<times> ('d, 'u) GamepadCallback option) option")

type_synonym ('d, 'u) registered =
  "('d, 'u) GamepadCallback option \<times> ('d, 'u) GamepadCallback option"

text \<open>
  The class \<^verbatim>\<open>Bluepad32\<close>. \<^verbatim>\<open>_prevConnectedGamepads\<close> is compared with and assigned from
  the \<^verbatim>\<open>int\<close> bitmask of \<^verbatim>\<open>update\<close>, a 32-bit word. \<^verbatim>\<open>_gamepads\<close> is the array of
  \<^verbatim>\<open>ARDUINO_MAX_GAMEPADS\<close> slots: the constant is not among the sources and is taken to be
  the length of the list. A callback member is \<open>None\<close> while it is empty, as the
  constructor leaves it and as \<^verbatim>\<open>setup\<close> leaves it when it is handed an empty callback.
\<close>

record ('d, 'u) Bluepad32 =
  prevConnectedGamepads :: "32 word"
  gamepads :: "'d gamepad list"
  onConnect :: "('d, 'u) GamepadCallback option"
  onDisconnect :: "('d, 'u) GamepadCallback option"

text \<open>The two lines that \<^verbatim>\<open>logi\<close> writes.\<close>

datatype log_line = Gamepad_connected nat | Gamepad_disconnected nat

text \<open>Calling an empty callback ends the pass.\<close>

datatype error = Empty_callback

subsection \<open>Bluepad32::Bluepad32\<close>

text \<open>
  The constructor clears the bitmask and leaves both callbacks empty. \<^verbatim>\<open>_gamepads()\<close>
  constructs the slots; the constructor of \<^verbatim>\<open>Gamepad\<close> is not among the sources, so the
  slots it leaves are a parameter.
\<close>

definition Bluepad32 :: "'d gamepad list \<Rightarrow> ('d, 'u) Bluepad32" where
  "Bluepad32 gs =
     \<lparr>prevConnectedGamepads = 0, gamepads = gs, onConnect = None, onDisconnect = None\<rparr>"

subsection \<open>Bluepad32::setup\<close>

text \<open>Both members are assigned, whatever they held and whatever is handed in.\<close>

definition Bluepad32_setup ::
  "('d, 'u) GamepadCallback option \<Rightarrow> ('d, 'u) GamepadCallback option \<Rightarrow> ('d, 'u) Bluepad32
     \<Rightarrow> ('d, 'u) Bluepad32"
where
  "Bluepad32_setup onConnect' onDisconnect' bp =
     bp\<lparr>onConnect := onConnect', onDisconnect := onDisconnect'\<rparr>"

subsection \<open>Bluepad32::update\<close>

text \<open>
  The first loop: \<^verbatim>\<open>arduino_get_gamepad_data(i, &_gamepads[i]._state)\<close> writes through the
  pointer, so the platform function \<open>get\<close> maps the slot index and the state found there
  to the state left there; a set bit is then added to \<^verbatim>\<open>connectedGamepads\<close>. The
  loop index is a \<open>nat\<close>: it never leaves \<open>0 .. ARDUINO_MAX_GAMEPADS\<close>. On the 32-bit
  word \<^verbatim>\<open>1 << i\<close> is \<open>push_bit i 1\<close>, which is 0 from \<open>i = 32\<close> on, where C++ leaves the
  shift undefined: a slot with such an index has no bit.
\<close>

function fetch_loop ::
  "(nat \<Rightarrow> 'd gamepad_data \<Rightarrow> 'd gamepad_data) \<Rightarrow> nat \<Rightarrow> 'd gamepad list \<Rightarrow> 32 word
     \<Rightarrow> 'd gamepad list \<times> 32 word"
where
  "fetch_loop get i gs connectedGamepads =
     (if i < length gs then
        let gs' = gs[i := (gs ! i)\<lparr>state := get i (state (gs ! i))\<rparr>];
            connectedGamepads' =
              (if idx (state (gs' ! i)) \<noteq> - 1 then connectedGamepads OR push_bit i 1
               else connectedGamepads)
        in fetch_loop get (Suc i) gs' connectedGamepads'
      else (gs, connectedGamepads))"
  by pat_completeness auto
termination
  by (relation "measure (\<lambda>(get, i, gs, c). length gs - i)") auto

text \<open>
  One call \<^verbatim>\<open>_onConnect(&_gamepads[i])\<close> or \<^verbatim>\<open>_onDisconnect(&_gamepads[i])\<close>: calling an
  empty callback ends the pass; otherwise the callback runs and the two members are the
  pair it registered meanwhile, or still what they were.
\<close>

definition call ::
  "('d, 'u) GamepadCallback option \<Rightarrow> nat \<Rightarrow> 'd gamepad \<Rightarrow> ('d, 'u) registered \<Rightarrow> 'u
     \<Rightarrow> error + (('d, 'u) registered \<times> 'u)"
where
  "call f i g cbs w =
     (case f of
        None \<Rightarrow> Inl Empty_callback
      | Some c \<Rightarrow>
          (case invoke c i g w of
             (w', None) \<Rightarrow> Inr (cbs, w')
           | (w', Some cbs') \<Rightarrow> Inr (cbs', w')))"

text \<open>
  The second loop: bit by bit, which slot got connected and which disconnected. The pair
  \<open>cbs\<close> is the members \<^verbatim>\<open>_onConnect\<close> and \<^verbatim>\<open>_onDisconnect\<close>, read anew at every call.
\<close>

function notify_loop ::
  "32 word \<Rightarrow> 32 word \<Rightarrow> nat \<Rightarrow> 'd gamepad list \<Rightarrow> ('d, 'u) registered \<Rightarrow> 'u \<Rightarrow> log_line list
     \<Rightarrow> error + ('d gamepad list \<times> ('d, 'u) registered \<times> 'u \<times> log_line list)"
where
  "notify_loop connectedGamepads prevConnected i gs cbs w lg =
     (if i < length gs then
        let b = push_bit i 1;
            current = connectedGamepads AND b;
            prev = prevConnected AND b
        in if current = prev then
             notify_loop connectedGamepads prevConnected (Suc i) gs cbs w lg
           else if current \<noteq> 0 then
             let gs' = gs[i := (gs ! i)\<lparr>connected := True\<rparr>]
             in case call (fst cbs) i (gs' ! i) cbs w of
                  Inl e \<Rightarrow> Inl e
                | Inr (cbs', w') \<Rightarrow>
                    notify_loop connectedGamepads prevConnected (Suc i) gs' cbs' w'
                      (lg @ [Gamepad_connected i])
           else
             case call (snd cbs) i (gs ! i) cbs w of
               Inl e \<Rightarrow> Inl e
             | Inr (cbs', w') \<Rightarrow>
                 notify_loop connectedGamepads prevConnected (Suc i)
                   (gs[i := (gs ! i)\<lparr>connected := False\<rparr>]) cbs' w'
                   (lg @ [Gamepad_disconnected i])
      else Inr (gs, cbs, w, lg))"
  by pat_completeness auto
termination
  by (relation "measure (\<lambda>(c, p, i, gs, cbs, w, lg). length gs - i)") auto

definition Bluepad32_update ::
  "(nat \<Rightarrow> 'd gamepad_data \<Rightarrow> 'd gamepad_data) \<Rightarrow> ('d, 'u) Bluepad32 \<Rightarrow> 'u
     \<Rightarrow> error + (('d, 'u) Bluepad32 \<times> 'u \<times> log_line list)"
where
  "Bluepad32_update get bp w =
     (let (gs, connectedGamepads) = fetch_loop get 0 (gamepads bp) 0
      in if connectedGamepads = prevConnectedGamepads bp then
           Inr (bp\<lparr>gamepads := gs\<rparr>, w, [])
         else
           case notify_loop connectedGamepads (prevConnectedGamepads bp) 0 gs
                  (onConnect bp, onDisconnect bp) w [] of
             Inl e \<Rightarrow> Inl e
           | Inr (gs', (onConnect', onDisconnect'), w', lg) \<Rightarrow>
               Inr (bp\<lparr>gamepads := gs', onConnect := onConnect',
                       onDisconnect := onDisconnect',
                       prevConnectedGamepads := connectedGamepads\<rparr>, w', lg))"

subsection \<open>What a callback is told\<close>

text \<open>
  One call of a callback: which of the two, the slot of the pointer, and the object behind
  the pointer at the time of the call.
\<close>

datatype 'd notification = Connect nat "'d gamepad" | Disconnect nat "'d gamepad"

fun slot :: "'d notification \<Rightarrow> nat" where
  "slot (Connect i g) = i"
| "slot (Disconnect i g) = i"

text \<open>A callback that only changes the application state and registers nothing.\<close>

definition plain :: "(nat \<Rightarrow> 'd gamepad \<Rightarrow> 'u \<Rightarrow> 'u) \<Rightarrow> ('d, 'u) GamepadCallback" where
  "plain f = GamepadCallback (\<lambda>i g w. (f i g w, None))"

text \<open>Two callbacks that write down each call they receive, in order.\<close>

definition record_connect :: "('d, 'd notification list) GamepadCallback" where
  "record_connect = plain (\<lambda>i g tr. tr @ [Connect i g])"

definition record_disconnect :: "('d, 'd notification list) GamepadCallback" where
  "record_disconnect = plain (\<lambda>i g tr. tr @ [Disconnect i g])"

text \<open>
  The calls of one pass: \<open>Bluepad32_update\<close> run on the object with the two recording
  callbacks registered, starting from the empty record.
\<close>

definition notifications ::
  "(nat \<Rightarrow> 'd gamepad_data \<Rightarrow> 'd gamepad_data) \<Rightarrow> ('d, 'u) Bluepad32 \<Rightarrow> 'd notification list"
where
  "notifications get bp =
     (case Bluepad32_update get
             \<lparr>prevConnectedGamepads = prevConnectedGamepads bp, gamepads = gamepads bp,
              onConnect = Some record_connect, onDisconnect = Some record_disconnect\<rparr> [] of
        Inl e \<Rightarrow> []
      | Inr (bp', tr, lg) \<Rightarrow> tr)"

text \<open>
  Handing recorded calls, in order, to the registered pair: each call goes to the member
  that is registered when it is made, and a call of an empty member ends the delivery.
\<close>

fun deliver ::
  "('d, 'u) registered \<times> 'u \<Rightarrow> 'd notification \<Rightarrow> error + (('d, 'u) registered \<times> 'u)"
where
  "deliver (cbs, w) (Connect i g) = call (fst cbs) i g cbs w"
| "deliver (cbs, w) (Disconnect i g) = call (snd cbs) i g cbs w"

fun deliver_all ::
  "('d, 'u) registered \<times> 'u \<Rightarrow> 'd notification list \<Rightarrow> error + (('d, 'u) registered \<times> 'u)"
where
  "deliver_all s [] = Inr s"
| "deliver_all s (e # es) =
     (case deliver s e of Inl x \<Rightarrow> Inl x | Inr s' \<Rightarrow> deliver_all s' es)"

text \<open>A sequence of calls of \<^verbatim>\<open>setup\<close>, the first of the list first.\<close>

definition register_all ::
  "('d, 'u) registered list \<Rightarrow> ('d, 'u) Bluepad32 \<Rightarrow> ('d, 'u) Bluepad32"
where
  "register_all regs bp = foldl (\<lambda>b (c, d). Bluepad32_setup c d b) bp regs"

text \<open>
  Passes one after the other, each on the object the pass before left, each with the
  platform as it is then.
\<close>

fun update_all ::
  "(nat \<Rightarrow> 'd gamepad_data \<Rightarrow> 'd gamepad_data) list \<Rightarrow> ('d, 'u) Bluepad32 \<Rightarrow> 'u
     \<Rightarrow> error + (('d, 'u) Bluepad32 \<times> 'u)"
where
  "update_all [] bp w = Inr (bp, w)"
| "update_all (get # gets) bp w =
     (case Bluepad32_update get bp w of
        Inl e \<Rightarrow> Inl e
      | Inr (bp', w', lg) \<Rightarrow> update_all gets bp' w')"

text \<open>
  The bitmask \<^verbatim>\<open>connectedGamepads\<close> and the slots that the first loop of a pass leaves.
\<close>

definition currentConnectedGamepads ::
  "(nat \<Rightarrow> 'd gamepad_data \<Rightarrow> 'd gamepad_data) \<Rightarrow> ('d, 'u) Bluepad32 \<Rightarrow> 32 word"
where
  "currentConnectedGamepads get bp = snd (fetch_loop get 0 (gamepads bp) 0)"

definition fetched ::
  "(nat \<Rightarrow> 'd gamepad_data \<Rightarrow> 'd gamepad_data) \<Rightarrow> ('d, 'u) Bluepad32 \<Rightarrow> 'd gamepad list"
where
  "fetched get bp = fst (fetch_loop get 0 (gamepads bp) 0)"

subsection \<open>The second loop, slot by slot\<close>

text \<open>
  What the body of the second loop does for slot \<open>j\<close>, written without the loop, from the
  bitmask \<open>cg\<close> of this pass, the bitmask \<open>pv\<close> of the previous one and the slots \<open>gs\<close>
  that the first loop left. \<open>changed\<close> is the negation of the test
  \<^verbatim>\<open>current == prev\<close> that skips the slot.
\<close>

definition changed :: "32 word \<Rightarrow> 32 word \<Rightarrow> nat \<Rightarrow> bool" where
  "changed cg pv j = (cg AND push_bit j 1 \<noteq> pv AND push_bit j 1)"

text \<open>
  The call made for a changed slot: \<^verbatim>\<open>if (current)\<close> the connect callback with the slot
  already marked live, else the disconnect callback with the slot as it is.
\<close>

definition slot_event :: "32 word \<Rightarrow> 'd gamepad list \<Rightarrow> nat \<Rightarrow> 'd notification" where
  "slot_event cg gs j =
     (if cg AND push_bit j 1 \<noteq> 0 then Connect j ((gs ! j)\<lparr>connected := True\<rparr>)
      else Disconnect j (gs ! j))"

text \<open>The line logged for a changed slot.\<close>

definition slot_log :: "32 word \<Rightarrow> nat \<Rightarrow> log_line" where
  "slot_log cg j =
     (if cg AND push_bit j 1 \<noteq> 0 then Gamepad_connected j else Gamepad_disconnected j)"

text \<open>
  Slot \<open>j\<close> once the loop has run from index \<open>i\<close> to the end: a changed slot has its
  \<^verbatim>\<open>_connected\<close> flag set or cleared, any other slot is untouched.
\<close>

definition slot_after :: "32 word \<Rightarrow> 32 word \<Rightarrow> nat \<Rightarrow> 'd gamepad list \<Rightarrow> nat \<Rightarrow> 'd gamepad" where
  "slot_after cg pv i gs j =
     (if i \<le> j \<and> changed cg pv j then (gs ! j)\<lparr>connected := (cg AND push_bit j 1 \<noteq> 0)\<rparr>
      else gs ! j)"

text \<open>The calls of the loop run from index \<open>i\<close>: one for each changed slot, in slot order.\<close>

definition events :: "32 word \<Rightarrow> 32 word \<Rightarrow> nat \<Rightarrow> 'd gamepad list \<Rightarrow> 'd notification list" where
  "events cg pv i gs = map (slot_event cg gs) (filter (changed cg pv) [i..<length gs])"

text \<open>The calls of a sequence of passes, from the bitmask and the slots it starts with.\<close>

fun calls_of_passes ::
  "(nat \<Rightarrow> 'd gamepad_data \<Rightarrow> 'd gamepad_data) list \<Rightarrow> 32 word \<Rightarrow> 'd gamepad list
     \<Rightarrow> 'd notification list"
where
  "calls_of_passes [] pv gs = []"
| "calls_of_passes (get # gets) pv gs =
     (let gs' = fst (fetch_loop get 0 gs 0); cg = snd (fetch_loop get 0 gs 0)
      in events cg pv 0 gs'
           @ calls_of_passes gets cg (map (slot_after cg pv 0 gs') [0..<length gs]))"


section \<open>The Android variant parser: \<^verbatim>\<open>parser/uni_hid_parser_android.h\<close>\<close>

text \<open>
  The header declares \<^verbatim>\<open>uni_hid_parser_android_init_report\<close>,
  \<^verbatim>\<open>uni_hid_parser_android_parse_usage\<close> and \<^verbatim>\<open>uni_hid_parser_android_set_player_leds\<close>;
  their bodies, \<^verbatim>\<open>hid_globals_t\<close> and \<^verbatim>\<open>struct uni_hid_device_s\<close> are not among the
  sources. From the header come the argument types of \<^verbatim>\<open>parse_usage\<close>: a 16-bit usage
  page, a 16-bit usage and a signed 32-bit value. Everything else in this section follows
  the specification.
\<close>

text \<open>
  Modelled from the spec: the Usage-Scaling Context (\<^verbatim>\<open>hid_globals_t\<close>, declared in
  \<^verbatim>\<open>parser/uni_hid_parser.h\<close>, which is missing), with the five members the specification
  lists.
\<close>

record hid_globals =
  logical_min :: int
  logical_max :: int
  physical_min :: int
  physical_max :: int
  unit_exponent :: int

text \<open>
  The Canonical Gamepad State is the gamepad inside the missing
  \<^verbatim>\<open>struct uni_hid_device_s\<close>: digital buttons, the X and Y axis of the left and of the
  right stick, analog triggers, a directional pad of nine directions, the battery level
  and the misc system buttons.
\<close>

text \<open>
  Modelled from the spec: the nine values of the directional pad, "centered" included (the
  enumeration is not among the sources).
\<close>

datatype dpad_direction =
  Dpad_Centered | Dpad_Up | Dpad_Up_Right | Dpad_Right | Dpad_Down_Right | Dpad_Down
| Dpad_Down_Left | Dpad_Left | Dpad_Up_Left

text \<open>
  Modelled from the spec: the names of the analog fields of the missing struct, the four
  stick axes and the triggers (the specification does not say how many).
\<close>

datatype analog_field = Left_X | Left_Y | Right_X | Right_Y | Trigger nat

text \<open>
  Modelled from the spec: the members of the Canonical Gamepad State. A button is known
  by its number.
\<close>

record canonical_gamepad_state =
  buttons :: "nat set"
  analog :: "analog_field \<Rightarrow> int"
  dpad :: dpad_direction
  battery :: "nat option"
  misc_buttons :: "nat set"

text \<open>
  Modelled from the spec: the canonical range of an analog field, "a fixed signed range"
  for a stick axis and "a fixed unsigned range" for a trigger, and its neutral value. The
  specification gives no numbers, so the ranges of the fields are a parameter. A range
  goes from its minimum up to its maximum: it is kept as the minimum and the width.
\<close>

record canonical_range =
  canonical_min :: int
  canonical_width :: nat
  neutral :: int

text \<open>
  Modelled from the spec: the upper one of the two "canonical extremes" of a field.
\<close>

definition canonical_max :: "canonical_range \<Rightarrow> int" where
  "canonical_max r = canonical_min r + int (canonical_width r)"

text \<open>
  Modelled from the spec: \<^verbatim>\<open>init_report\<close>, whose body is missing. It overwrites the whole
  state with the idle values: all buttons released, sticks centred, triggers at rest,
  directional pad centred, battery unknown.
\<close>

definition init_report ::
  "(analog_field \<Rightarrow> canonical_range) \<Rightarrow> canonical_gamepad_state \<Rightarrow> canonical_gamepad_state"
where
  "init_report ranges st =
     \<lparr>buttons = {}, analog = (\<lambda>f. neutral (ranges f)), dpad = Dpad_Centered, battery = None,
      misc_buttons = {}\<rparr>"

text \<open>
  The numeric policy of \<^verbatim>\<open>parse_usage\<close>, in the words of the specification: the value is
  clamped to the logical range, scaled from it into the canonical range of
  the field, and the scaled value is rounded toward zero (\<open>sdiv\<close> is the division that
  truncates). A division by zero is the result \<open>None\<close>. A context whose logical range
  has no width is malformed and gives the neutral value of the field, with no division.
\<close>

text \<open>
  Modelled from the spec: "clamping on out-of-range input", a step of the missing body of
  \<^verbatim>\<open>parse_usage\<close>.
\<close>

definition clamp :: "int \<Rightarrow> int \<Rightarrow> int \<Rightarrow> int" where
  "clamp lo hi v = (if v < lo then lo else if hi < v then hi else v)"

text \<open>
  Modelled from the spec: the division of the missing body of \<^verbatim>\<open>parse_usage\<close>,
  "rounding toward zero", with the division by zero as a result of its own.
\<close>

definition truncating_divide :: "int \<Rightarrow> int \<Rightarrow> int option" where
  "truncating_divide a b = (if b = 0 then None else Some (a sdiv b))"

text \<open>
  Modelled from the spec: the normalisation inside the missing body of \<^verbatim>\<open>parse_usage\<close>:
  the neutral value for a logical range without width, else the clamped value scaled
  linearly from \<open>[logical_min, logical_max]\<close> onto \<open>[canonical_min, canonical_max]\<close>.
\<close>

definition normalize_value :: "hid_globals \<Rightarrow> canonical_range \<Rightarrow> int \<Rightarrow> int option" where
  "normalize_value globals r v =
     (if logical_max globals \<le> logical_min globals then Some (neutral r)
      else
        let v' = clamp (logical_min globals) (logical_max globals) v
        in truncating_divide (canonical_min r * (logical_max globals - v')
                     + canonical_max r * (v' - logical_min globals))
             (logical_max globals - logical_min globals))"

text \<open>
  \<^verbatim>\<open>parse_usage\<close> itself. Which
  \<open>(usage_page, usage)\<close> pairs the Android variant recognises is not in the specification,
  so the table of the variant is a parameter: it sends a recognised pair to the analog
  field that takes the normalised value, or to another handler (a button, the hat switch),
  and an unrecognised pair to \<open>None\<close>. The function has no error to report; the
  result \<open>None\<close> stands for a division by zero on the way.
\<close>

text \<open>
  Modelled from the spec: what the missing table of the variant does with a recognised
  pair.
\<close>

datatype usage_handler =
  Analog analog_field
| Special "hid_globals \<Rightarrow> 32 word \<Rightarrow> canonical_gamepad_state \<Rightarrow> canonical_gamepad_state"

text \<open>
  Modelled from the spec: the Variant Parser, as far as \<^verbatim>\<open>parse_usage\<close> needs it: the
  missing usage table and the missing canonical ranges of the analog fields.
\<close>

record variant_parser =
  usage_table :: "16 word \<Rightarrow> 16 word \<Rightarrow> usage_handler option"
  ranges :: "analog_field \<Rightarrow> canonical_range"

text \<open>
  Modelled from the spec: the missing body of \<^verbatim>\<open>uni_hid_parser_android_parse_usage\<close>.
\<close>

definition parse_usage ::
  "variant_parser \<Rightarrow> canonical_gamepad_state \<Rightarrow> hid_globals \<Rightarrow> 16 word \<Rightarrow> 16 word \<Rightarrow> 32 word
     \<Rightarrow> canonical_gamepad_state option"
where
  "parse_usage p st globals usage_page usage v =
     (case usage_table p usage_page usage of
        None \<Rightarrow> Some st
      | Some (Analog f) \<Rightarrow>
          (case normalize_value globals (ranges p f) (sint v) of
             None \<Rightarrow> None
           | Some y \<Rightarrow> Some (st\<lparr>analog := (analog st)(f := y)\<rparr>))
      | Some (Special h) \<Rightarrow> Some (h globals v st))"

section \<open>Inputs for the examples\<close>

definition example_ranges :: "analog_field \<Rightarrow> canonical_range" where
  "example_ranges f =
     (case f of
        Trigger k \<Rightarrow> \<lparr>canonical_min = 0, canonical_width = 1023, neutral = 0\<rparr>
      | _ \<Rightarrow> \<lparr>canonical_min = - 512, canonical_width = 1023, neutral = 0\<rparr>)"

definition example_parser :: variant_parser where
  "example_parser =
     \<lparr>usage_table = (\<lambda>page usage. if page = 1 \<and> usage = 48 then Some (Analog Left_X) else None),
      ranges = example_ranges\<rparr>"

definition example_globals :: hid_globals where
  "example_globals =
     \<lparr>logical_min = 0, logical_max = 255, physical_min = 0, physical_max = 255, unit_exponent = 0\<rparr>"

definition zero_width_globals :: hid_globals where
  "zero_width_globals =
     \<lparr>logical_min = 0, logical_max = 0, physical_min = 0, physical_max = 0, unit_exponent = 0\<rparr>"

definition pressed_state :: canonical_gamepad_state where
  "pressed_state =
     \<lparr>buttons = {0}, analog = (\<lambda>f. 0), dpad = Dpad_Centered, battery = None, misc_buttons = {}\<rparr>"

definition idle_state :: canonical_gamepad_state where
  "idle_state = init_report example_ranges pressed_state"

definition absent :: "canonical_gamepad_state gamepad_data" where
  "absent = \<lparr>idx = - 1, members = idle_state\<rparr>"

definition present :: "canonical_gamepad_state gamepad_data" where
  "present = \<lparr>idx = 0, members = pressed_state\<rparr>"

text \<open>A platform with a controller in slot 0 only, and one with none.\<close>

definition platform_one :: "nat \<Rightarrow> canonical_gamepad_state gamepad_data \<Rightarrow> canonical_gamepad_state gamepad_data" where
  "platform_one i old = (if i = 0 then present else absent)"

definition platform_none :: "nat \<Rightarrow> canonical_gamepad_state gamepad_data \<Rightarrow> canonical_gamepad_state gamepad_data" where
  "platform_none i old = absent"

text \<open>A platform with a controller in every slot.\<close>

definition platform_both :: "nat \<Rightarrow> canonical_gamepad_state gamepad_data \<Rightarrow> canonical_gamepad_state gamepad_data" where
  "platform_both i old = present"

text \<open>
  A connect callback that writes the call down and then calls \<^verbatim>\<open>setup\<close> with two empty
  callbacks.
\<close>

definition record_and_unregister ::
  "(canonical_gamepad_state, canonical_gamepad_state notification list) GamepadCallback"
where
  "record_and_unregister = GamepadCallback (\<lambda>i g tr. (tr @ [Connect i g], Some (None, None)))"

text \<open>
  Two slots: constructed and set up with the recording callbacks, and as they are once the
  controller of slot 0 was seen.
\<close>

definition bp_empty :: "(canonical_gamepad_state, canonical_gamepad_state notification list) Bluepad32" where
  "bp_empty =
     Bluepad32_setup (Some record_connect) (Some record_disconnect)
       (Bluepad32 [\<lparr>state = absent, connected = False\<rparr>, \<lparr>state = absent, connected = False\<rparr>])"

definition bp_one :: "(canonical_gamepad_state, canonical_gamepad_state notification list) Bluepad32" where
  "bp_one =
     \<lparr>prevConnectedGamepads = 1,
      gamepads = [\<lparr>state = present, connected = True\<rparr>, \<lparr>state = absent, connected = False\<rparr>],
      onConnect = Some record_connect, onDisconnect = Some record_disconnect\<rparr>"

section \<open>Proofs\<close>

subsection \<open>One bit of the 32-bit mask\<close>

lemma bit_slot: "bit (push_bit j (1::32 word)) n \<longleftrightarrow> n = j \<and> j < 32"
  by (auto simp add: bit_exp_iff)

lemma and_slot_eq_iff:
  "(cg AND push_bit j 1 = pv AND push_bit j (1::32 word)) \<longleftrightarrow> (j < 32 \<longrightarrow> bit cg j = bit pv j)"
  by (auto simp add: bit_eq_iff [where ?'a = "32 word"] bit_and_iff bit_slot
      simp del: push_bit_of_1)

lemma and_slot_0_iff: "(cg AND push_bit j (1::32 word) = 0) \<longleftrightarrow> \<not> (j < 32 \<and> bit cg j)"
  by (auto simp add: bit_eq_iff [where ?'a = "32 word"] bit_and_iff bit_slot
      simp del: push_bit_of_1)

lemma bit_or_slot: "bit (c OR push_bit j (1::32 word)) k \<longleftrightarrow> bit c k \<or> (k = j \<and> j < 32)"
  by (auto simp add: bit_or_iff bit_slot simp del: push_bit_of_1)

lemma changed_iff: "changed cg pv j \<longleftrightarrow> j < 32 \<and> bit cg j \<noteq> bit pv j"
  unfolding changed_def and_slot_eq_iff by auto

lemma changed_same: "\<not> changed cg cg j"
  by (simp add: changed_def)

subsection \<open>The first loop\<close>

declare fetch_loop.simps [simp del]
declare notify_loop.simps [simp del]

lemma fetch_loop_length: "length (fst (fetch_loop get i gs c)) = length gs"
proof (induction get i gs c rule: fetch_loop.induct)
  case (1 get i gs c)
  show ?case
  proof (cases "i < length gs")
    case True
    then show ?thesis
      using "1.IH" by (subst fetch_loop.simps) (simp add: Let_def del: push_bit_of_1)
  next
    case False
    then show ?thesis by (subst fetch_loop.simps) simp
  qed
qed

lemma fetch_loop_nth:
  "j < length gs \<Longrightarrow>
   fst (fetch_loop get i gs c) ! j =
     (if i \<le> j then (gs ! j)\<lparr>state := get j (state (gs ! j))\<rparr> else gs ! j)"
proof (induction get i gs c rule: fetch_loop.induct)
  case (1 get i gs c)
  show ?case
  proof (cases "i < length gs")
    case True
    let ?gs = "gs[i := (gs ! i)\<lparr>state := get i (state (gs ! i))\<rparr>]"
    let ?c = "if idx (state (?gs ! i)) \<noteq> - 1 then c OR push_bit i 1 else c"
    have step: "fetch_loop get i gs c = fetch_loop get (Suc i) ?gs ?c"
      using True by (subst fetch_loop.simps) (simp add: Let_def del: push_bit_of_1)
    have "fst (fetch_loop get (Suc i) ?gs ?c) ! j =
            (if Suc i \<le> j then (?gs ! j)\<lparr>state := get j (state (?gs ! j))\<rparr> else ?gs ! j)"
      using "1.IH" [OF True refl refl] "1.prems" by simp
    then show ?thesis
      using True "1.prems" unfolding step by (cases "j = i") (auto simp add: nth_list_update)
  next
    case False
    then show ?thesis using "1.prems" by (subst fetch_loop.simps) simp
  qed
qed

lemma fetch_loop_bit:
  "bit (snd (fetch_loop get i gs c)) k \<longleftrightarrow>
     bit c k \<or> (i \<le> k \<and> k < length gs \<and> k < 32 \<and> idx (get k (state (gs ! k))) \<noteq> - 1)"
proof (induction get i gs c rule: fetch_loop.induct)
  case (1 get i gs c)
  show ?case
  proof (cases "i < length gs")
    case True
    let ?gs = "gs[i := (gs ! i)\<lparr>state := get i (state (gs ! i))\<rparr>]"
    let ?c = "if idx (state (?gs ! i)) \<noteq> - 1 then c OR push_bit i 1 else c"
    have step: "fetch_loop get i gs c = fetch_loop get (Suc i) ?gs ?c"
      using True by (subst fetch_loop.simps) (simp add: Let_def del: push_bit_of_1)
    have ih: "bit (snd (fetch_loop get (Suc i) ?gs ?c)) k \<longleftrightarrow>
            bit ?c k \<or> (Suc i \<le> k \<and> k < length ?gs \<and> k < 32
              \<and> idx (get k (state (?gs ! k))) \<noteq> - 1)"
      using "1.IH" [OF True refl refl] by simp
    have c: "bit ?c k \<longleftrightarrow> bit c k \<or> (k = i \<and> i < 32 \<and> idx (get i (state (gs ! i))) \<noteq> - 1)"
      using True by (simp add: bit_or_slot del: push_bit_of_1)
    show ?thesis
      unfolding step ih c using True by (cases "k = i") (auto simp add: nth_list_update)
  next
    case False
    then show ?thesis by (subst fetch_loop.simps) auto
  qed
qed


subsection \<open>The second loop\<close>

lemma events_list_update: "events cg pv (Suc i) (gs[i := x]) = events cg pv (Suc i) gs"
  unfolding events_def by (auto simp add: slot_event_def simp del: push_bit_of_1)

lemma events_done: "length gs \<le> i \<Longrightarrow> events cg pv i gs = []"
  by (simp add: events_def)

lemma events_step:
  "i < length gs \<Longrightarrow>
   events cg pv i gs =
     (if changed cg pv i then slot_event cg gs i # events cg pv (Suc i) gs
      else events cg pv (Suc i) gs)"
  by (simp add: events_def upt_conv_Cons)

lemma slots_after_done:
  "length gs \<le> i \<Longrightarrow> map (slot_after cg pv i gs) [0..<length gs] = gs"
  by (rule nth_equalityI) (simp_all add: slot_after_def)

lemma slots_after_skip:
  "\<not> changed cg pv i \<Longrightarrow>
   map (slot_after cg pv (Suc i) gs) [0..<length gs] = map (slot_after cg pv i gs) [0..<length gs]"
proof (rule nth_equalityI)
  fix j
  assume "\<not> changed cg pv i" and "j < length (map (slot_after cg pv (Suc i) gs) [0..<length gs])"
  then show "map (slot_after cg pv (Suc i) gs) [0..<length gs] ! j
               = map (slot_after cg pv i gs) [0..<length gs] ! j"
    by (cases "j = i") (auto simp add: slot_after_def)
qed simp

lemma slots_after_step:
  assumes "i < length gs" and "changed cg pv i"
  shows "map (slot_after cg pv (Suc i)
                (gs[i := (gs ! i)\<lparr>connected := (cg AND push_bit i 1 \<noteq> 0)\<rparr>]))
           [0..<length gs]
         = map (slot_after cg pv i gs) [0..<length gs]"
proof (rule nth_equalityI)
  fix j
  assume "j < length (map (slot_after cg pv (Suc i)
               (gs[i := (gs ! i)\<lparr>connected := (cg AND push_bit i 1 \<noteq> 0)\<rparr>])) [0..<length gs])"
  then have j: "j < length gs" by simp
  show "map (slot_after cg pv (Suc i)
               (gs[i := (gs ! i)\<lparr>connected := (cg AND push_bit i 1 \<noteq> 0)\<rparr>])) [0..<length gs] ! j
        = map (slot_after cg pv i gs) [0..<length gs] ! j"
    using assms j by (cases "j = i") (auto simp add: slot_after_def simp del: push_bit_of_1)
qed simp

lemma notify_loop_closed:
  "notify_loop cg pv i gs cbs w lg =
     (case deliver_all (cbs, w) (events cg pv i gs) of
        Inl e \<Rightarrow> Inl e
      | Inr (cbs', w') \<Rightarrow>
          Inr (map (slot_after cg pv i gs) [0..<length gs], cbs', w',
               lg @ map (slot_log cg) (filter (changed cg pv) [i..<length gs])))"
proof (induction "length gs - i" arbitrary: i gs cbs w lg)
  case 0
  then have "length gs \<le> i" by simp
  then show ?case
    by (subst notify_loop.simps) (simp add: slots_after_done events_done)
next
  case (Suc k)
  then have i: "i < length gs" and k: "k = length gs - Suc i" by simp_all
  show ?case
  proof (cases "changed cg pv i")
    case False
    then have "notify_loop cg pv i gs cbs w lg = notify_loop cg pv (Suc i) gs cbs w lg"
      using i by (subst notify_loop.simps) (simp add: changed_def Let_def del: push_bit_of_1)
    then show ?thesis
      using Suc.hyps(1) [OF k] False i
      by (simp add: slots_after_skip events_step upt_conv_Cons split: sum.splits)
  next
    case True
    show ?thesis
    proof (cases "cg AND push_bit i 1 \<noteq> 0")
      case c: True
      let ?gs = "gs[i := (gs ! i)\<lparr>connected := True\<rparr>]"
      have len: "k = length ?gs - Suc i" using k by simp
      have g: "?gs ! i = (gs ! i)\<lparr>connected := True\<rparr>" using i by simp
      have step: "notify_loop cg pv i gs cbs w lg =
              (case call (fst cbs) i (?gs ! i) cbs w of
                 Inl e \<Rightarrow> Inl e
               | Inr (cbs', w') \<Rightarrow>
                   notify_loop cg pv (Suc i) ?gs cbs' w' (lg @ [Gamepad_connected i]))"
        using i True c
        by (subst notify_loop.simps) (simp add: changed_def Let_def del: push_bit_of_1)
      have ev: "events cg pv i gs = Connect i (?gs ! i) # events cg pv (Suc i) ?gs"
        using i True c g
        by (simp add: events_step events_list_update slot_event_def del: push_bit_of_1)
      show ?thesis
      proof (cases "call (fst cbs) i (?gs ! i) cbs w")
        case (Inl e)
        then show ?thesis unfolding step ev by simp
      next
        case (Inr r)
        obtain cbs' w' where r: "r = (cbs', w')" by (cases r)
        show ?thesis
          unfolding step ev
          using Inr r Suc.hyps(1) [OF len, of cbs' w' "lg @ [Gamepad_connected i]"]
            True c i slots_after_step [OF i True]
          by (simp add: events_list_update slot_log_def upt_conv_Cons split: sum.splits
              del: push_bit_of_1)
      qed
    next
      case c: False
      let ?gs = "gs[i := (gs ! i)\<lparr>connected := False\<rparr>]"
      have len: "k = length ?gs - Suc i" using k by simp
      have step: "notify_loop cg pv i gs cbs w lg =
              (case call (snd cbs) i (gs ! i) cbs w of
                 Inl e \<Rightarrow> Inl e
               | Inr (cbs', w') \<Rightarrow>
                   notify_loop cg pv (Suc i) ?gs cbs' w' (lg @ [Gamepad_disconnected i]))"
        using i True c
        by (subst notify_loop.simps) (simp add: changed_def Let_def del: push_bit_of_1)
      have ev: "events cg pv i gs = Disconnect i (gs ! i) # events cg pv (Suc i) ?gs"
        using i True c
        by (simp add: events_step events_list_update slot_event_def del: push_bit_of_1)
      show ?thesis
      proof (cases "call (snd cbs) i (gs ! i) cbs w")
        case (Inl e)
        then show ?thesis unfolding step ev by simp
      next
        case (Inr r)
        obtain cbs' w' where r: "r = (cbs', w')" by (cases r)
        show ?thesis
          unfolding step ev
          using Inr r Suc.hyps(1) [OF len, of cbs' w' "lg @ [Gamepad_disconnected i]"]
            True c i slots_after_step [OF i True]
          by (simp add: events_list_update slot_log_def upt_conv_Cons split: sum.splits
              del: push_bit_of_1)
      qed
    qed
  qed
qed


subsection \<open>The whole pass\<close>

lemma fetched_length: "length (fetched get bp) = length (gamepads bp)"
  by (simp add: fetched_def fetch_loop_length)

lemma fetched_nth:
  "i < length (gamepads bp) \<Longrightarrow>
   fetched get bp ! i = (gamepads bp ! i)\<lparr>state := get i (state (gamepads bp ! i))\<rparr>"
  by (simp add: fetched_def fetch_loop_nth)

lemma currentConnectedGamepads_bit:
  "bit (currentConnectedGamepads get bp) k \<longleftrightarrow>
     k < length (gamepads bp) \<and> k < 32 \<and> idx (get k (state (gamepads bp ! k))) \<noteq> - 1"
  by (simp add: currentConnectedGamepads_def fetch_loop_bit)

lemma events_same: "events cg cg i gs = []"
  by (simp add: events_def changed_same)

lemma slots_after_same: "map (slot_after cg cg i gs) [0..<length gs] = gs"
  by (rule nth_equalityI) (simp_all add: slot_after_def changed_same)

lemma update_unchanged:
  "currentConnectedGamepads get bp = prevConnectedGamepads bp \<Longrightarrow>
   Bluepad32_update get bp w = Inr (bp\<lparr>gamepads := fetched get bp\<rparr>, w, [])"
  by (simp add: Bluepad32_update_def currentConnectedGamepads_def fetched_def split_beta)

lemma update_closed:
  "Bluepad32_update get bp w =
     (case deliver_all ((onConnect bp, onDisconnect bp), w)
             (events (currentConnectedGamepads get bp) (prevConnectedGamepads bp) 0
                (fetched get bp)) of
        Inl e \<Rightarrow> Inl e
      | Inr ((onConnect', onDisconnect'), w') \<Rightarrow>
          Inr (\<lparr>prevConnectedGamepads = currentConnectedGamepads get bp,
                gamepads = map (slot_after (currentConnectedGamepads get bp)
                                  (prevConnectedGamepads bp) 0 (fetched get bp))
                             [0..<length (gamepads bp)],
                onConnect = onConnect', onDisconnect = onDisconnect'\<rparr>,
               w',
               map (slot_log (currentConnectedGamepads get bp))
                 (filter (changed (currentConnectedGamepads get bp) (prevConnectedGamepads bp))
                    [0..<length (gamepads bp)])))"
proof (cases "currentConnectedGamepads get bp = prevConnectedGamepads bp")
  case True
  have "filter (changed (prevConnectedGamepads bp) (prevConnectedGamepads bp)) xs = []" for xs
    by (simp add: changed_same)
  then show ?thesis
    using True slots_after_same [of "prevConnectedGamepads bp" 0 "fetched get bp"]
    by (simp add: update_unchanged events_same fetched_length)
next
  case False
  then show ?thesis
    by (simp add: Bluepad32_update_def currentConnectedGamepads_def fetched_def split_beta
        notify_loop_closed fetch_loop_length split: sum.splits)
qed

lemma update_Inr:
  assumes "Bluepad32_update get bp w = Inr (bp', w', lg)"
  shows "prevConnectedGamepads bp' = currentConnectedGamepads get bp"
    and "gamepads bp' =
           map (slot_after (currentConnectedGamepads get bp) (prevConnectedGamepads bp) 0
                  (fetched get bp))
             [0..<length (gamepads bp)]"
  using assms unfolding update_closed [of get bp w]
  by (auto split: sum.splits)

lemma deliver_all_plain:
  "deliver_all ((Some (plain f), Some (plain h)), w) es =
     Inr ((Some (plain f), Some (plain h)),
          foldl (\<lambda>u e. case e of Connect i g \<Rightarrow> f i g u | Disconnect i g \<Rightarrow> h i g u) w es)"
proof (induction es arbitrary: w)
  case Nil
  show ?case by simp
next
  case (Cons e es)
  then show ?case by (cases e) (simp_all add: call_def plain_def)
qed

lemma foldl_record:
  "foldl (\<lambda>u e. case e of Connect i g \<Rightarrow> u @ [Connect i g] | Disconnect i g \<Rightarrow> u @ [Disconnect i g])
     tr es = tr @ es"
proof (induction es arbitrary: tr)
  case Nil
  show ?case by simp
next
  case (Cons e es)
  then show ?case by (cases e) simp_all
qed

lemma notifications_events:
  "notifications get bp =
     events (currentConnectedGamepads get bp) (prevConnectedGamepads bp) 0 (fetched get bp)"
proof -
  let ?bp = "\<lparr>prevConnectedGamepads = prevConnectedGamepads bp, gamepads = gamepads bp,
              onConnect = Some record_connect, onDisconnect = Some record_disconnect\<rparr>"
  have "currentConnectedGamepads get ?bp = currentConnectedGamepads get bp"
    and "fetched get ?bp = fetched get bp"
    by (simp_all add: currentConnectedGamepads_def fetched_def)
  then show ?thesis
    unfolding notifications_def update_closed [of get ?bp "[]"]
    by (simp add: record_connect_def record_disconnect_def deliver_all_plain foldl_record)
qed

lemma slots_of_events: "map slot (events cg pv i gs) = filter (changed cg pv) [i..<length gs]"
proof -
  have "slot (slot_event cg gs j) = j" for j
    by (simp add: slot_event_def)
  then have "map slot (map (slot_event cg gs) xs) = xs" for xs
    by (induction xs) simp_all
  then show ?thesis by (simp add: events_def)
qed

lemma filter_slot_upt:
  "filter (\<lambda>j. Q j \<and> j = i) [0..<n] = (if i < n \<and> Q i then [i] else [])"
  by (induction n) (auto simp add: less_Suc_eq)

lemma events_of_slot:
  "filter (\<lambda>e. slot e = i) (events cg pv 0 gs) =
     (if i < length gs \<and> changed cg pv i then [slot_event cg gs i] else [])"
proof -
  have "(\<lambda>e. slot e = i) \<circ> slot_event cg gs = (\<lambda>j. j = i)"
    by (auto simp add: slot_event_def fun_eq_iff)
  then show ?thesis
    by (simp add: events_def filter_map filter_slot_upt)
qed

text \<open>
  Whatever the two members hold, the pass hands them the recorded calls, in the recorded
  order.
\<close>

lemma update_delivers:
  "Bluepad32_update get bp w =
     (case deliver_all ((onConnect bp, onDisconnect bp), w) (notifications get bp) of
        Inl e \<Rightarrow> Inl e
      | Inr ((onConnect', onDisconnect'), w') \<Rightarrow>
          Inr (\<lparr>prevConnectedGamepads = currentConnectedGamepads get bp,
                gamepads = map (slot_after (currentConnectedGamepads get bp)
                                  (prevConnectedGamepads bp) 0 (fetched get bp))
                             [0..<length (gamepads bp)],
                onConnect = onConnect', onDisconnect = onDisconnect'\<rparr>,
               w',
               map (slot_log (currentConnectedGamepads get bp))
                 (filter (changed (currentConnectedGamepads get bp) (prevConnectedGamepads bp))
                    [0..<length (gamepads bp)])))"
  unfolding notifications_events by (rule update_closed)

subsection \<open>Registrations and later passes\<close>

lemma setup_setup:
  "Bluepad32_setup c d (Bluepad32_setup c' d' bp) = Bluepad32_setup c d bp"
  by (simp add: Bluepad32_setup_def)

lemma register_all_last:
  "register_all (regs @ [(c, d)]) bp = Bluepad32_setup c d bp"
proof (induction regs arbitrary: c d rule: rev_induct)
  case Nil
  show ?case by (simp add: register_all_def)
next
  case (snoc r regs)
  obtain c' d' where r: "r = (c', d')" by (cases r)
  have "register_all ((regs @ [r]) @ [(c, d)]) bp =
          Bluepad32_setup c d (register_all (regs @ [(c', d')]) bp)"
    by (simp add: register_all_def r)
  then show ?case
    by (simp add: snoc.IH setup_setup)
qed

lemma update_all_plain:
  assumes "onConnect bp = Some (plain f)" and "onDisconnect bp = Some (plain h)"
  shows "\<exists>pv' gs'. update_all gets bp w =
           Inr (\<lparr>prevConnectedGamepads = pv', gamepads = gs',
                 onConnect = Some (plain f), onDisconnect = Some (plain h)\<rparr>,
                foldl (\<lambda>u e. case e of Connect i g \<Rightarrow> f i g u | Disconnect i g \<Rightarrow> h i g u) w
                  (calls_of_passes gets (prevConnectedGamepads bp) (gamepads bp)))"
  using assms
proof (induction gets arbitrary: bp w)
  case Nil
  have "bp = \<lparr>prevConnectedGamepads = prevConnectedGamepads bp, gamepads = gamepads bp,
               onConnect = onConnect bp, onDisconnect = onDisconnect bp\<rparr>"
    by simp
  then show ?case
    using Nil by (metis calls_of_passes.simps(1) foldl_Nil update_all.simps(1))
next
  case (Cons get gets)
  let ?cg = "currentConnectedGamepads get bp"
  let ?gs = "map (slot_after ?cg (prevConnectedGamepads bp) 0 (fetched get bp))
               [0..<length (gamepads bp)]"
  let ?bp = "\<lparr>prevConnectedGamepads = ?cg, gamepads = ?gs,
               onConnect = Some (plain f), onDisconnect = Some (plain h)\<rparr>"
  let ?F = "\<lambda>u e. case e of Connect i g \<Rightarrow> f i g u | Disconnect i g \<Rightarrow> h i g u"
  let ?w = "foldl ?F w (events ?cg (prevConnectedGamepads bp) 0 (fetched get bp))"
  have one: "\<exists>lg. Bluepad32_update get bp w = Inr (?bp, ?w, lg)"
    unfolding update_closed [of get bp w] using Cons.prems
    by (simp add: deliver_all_plain)
  have "\<exists>pv' gs'. update_all gets ?bp ?w =
           Inr (\<lparr>prevConnectedGamepads = pv', gamepads = gs',
                 onConnect = Some (plain f), onDisconnect = Some (plain h)\<rparr>,
                foldl ?F ?w (calls_of_passes gets ?cg ?gs))"
    using Cons.IH [of ?bp ?w] by simp
  then show ?case
    using one
    by (auto simp add: Let_def currentConnectedGamepads_def fetched_def)
qed


section \<open>The claims about the polling pass\<close>

text \<open>
  C1, as amended: when bit \<open>i\<close> was clear in the previous bitmask and is set in the one this
  pass reads, the connect callback is called once for slot \<open>i\<close>, after the slot was marked
  live. The state it is handed is the snapshot that \<^verbatim>\<open>arduino_get_gamepad_data\<close> wrote into
  the slot during this pass: \<^verbatim>\<open>update\<close> does not call \<^verbatim>\<open>init_report\<close>.
\<close>

theorem connect_notification:
  assumes "\<not> bit (prevConnectedGamepads bp) i" and "bit (currentConnectedGamepads get bp) i"
  shows "filter (\<lambda>e. slot e = i) (notifications get bp) =
           [Connect i \<lparr>state = get i (state (gamepads bp ! i)), connected = True\<rparr>]"
proof -
  have i: "i < length (gamepads bp)" "i < 32"
    using assms(2) by (simp_all add: currentConnectedGamepads_bit)
  have "changed (currentConnectedGamepads get bp) (prevConnectedGamepads bp) i"
    using assms i by (simp add: changed_iff)
  moreover have "currentConnectedGamepads get bp AND push_bit i 1 \<noteq> 0"
    using assms(2) i and_slot_0_iff [of "currentConnectedGamepads get bp" i] by simp
  ultimately show ?thesis
    using i
    by (simp add: notifications_events events_of_slot fetched_length slot_event_def fetched_nth
        del: push_bit_of_1)
qed

theorem connect_notification_witness:
  "\<not> bit (prevConnectedGamepads bp_empty) 0 \<and> bit (currentConnectedGamepads platform_one bp_empty) 0
   \<and> filter (\<lambda>e. slot e = 0) (notifications platform_one bp_empty) =
       [Connect 0 \<lparr>state = platform_one 0 (state (gamepads bp_empty ! 0)), connected = True\<rparr>]"
proof -
  have h1: "\<not> bit (prevConnectedGamepads bp_empty) 0"
    by (simp add: bp_empty_def Bluepad32_setup_def Bluepad32_def)
  have h2: "bit (currentConnectedGamepads platform_one bp_empty) 0"
    by (simp add: currentConnectedGamepads_def bp_empty_def Bluepad32_setup_def Bluepad32_def
        platform_one_def present_def absent_def fetch_loop.simps)
  show ?thesis
    using h1 h2 connect_notification [OF h1 h2] by simp
qed

text \<open>
  C1 as written does not hold: slot 0 goes from empty to connected, the snapshot of the
  platform has button 0 pressed, and the connect callback is handed that snapshot, which is
  not the state that \<^verbatim>\<open>init_report\<close> leaves.
\<close>

theorem connect_state_not_reset:
  "\<not> bit (prevConnectedGamepads bp_empty) 0 \<and> bit (currentConnectedGamepads platform_one bp_empty) 0
   \<and> notifications platform_one bp_empty = [Connect 0 \<lparr>state = present, connected = True\<rparr>]
   \<and> members present \<noteq> init_report example_ranges (members present)"
proof -
  have "notifications platform_one bp_empty = [Connect 0 \<lparr>state = present, connected = True\<rparr>]"
    by (simp add: notifications_def Bluepad32_update_def bp_empty_def Bluepad32_setup_def
        Bluepad32_def platform_one_def present_def absent_def fetch_loop.simps
        notify_loop.simps record_connect_def plain_def call_def)
  moreover have "bit (currentConnectedGamepads platform_one bp_empty) 0"
    by (simp add: currentConnectedGamepads_def bp_empty_def Bluepad32_setup_def Bluepad32_def
        platform_one_def present_def absent_def fetch_loop.simps)
  moreover have "members present \<noteq> init_report example_ranges (members present)"
    by (simp add: present_def pressed_state_def init_report_def)
  ultimately show ?thesis
    by (simp add: bp_empty_def Bluepad32_setup_def Bluepad32_def)
qed




text \<open>
  C3: a pass sees only the difference between the bitmask it reads and the one of the
  previous pass. When the two are equal, no callback is called for any slot: the pass
  returns with the application state as it was and nothing logged, whatever happened to a
  slot between the two passes.
\<close>

theorem no_change_no_notification:
  assumes "currentConnectedGamepads get bp = prevConnectedGamepads bp"
  shows "notifications get bp = []
    \<and> Bluepad32_update get bp w = Inr (bp\<lparr>gamepads := fetched get bp\<rparr>, w, [])"
  using assms by (simp add: notifications_events events_same update_unchanged)

theorem no_change_no_notification_witness:
  "currentConnectedGamepads platform_one bp_one = prevConnectedGamepads bp_one
   \<and> notifications platform_one bp_one = []
   \<and> Bluepad32_update platform_one bp_one [] = Inr (bp_one\<lparr>gamepads := fetched platform_one bp_one\<rparr>, [], [])"
proof -
  have h: "currentConnectedGamepads platform_one bp_one = prevConnectedGamepads bp_one"
    by (simp add: currentConnectedGamepads_def bp_one_def platform_one_def present_def absent_def
        fetch_loop.simps)
  show ?thesis
    using h no_change_no_notification [OF h, of "[]"] by simp
qed

text \<open>
  C4: in one pass no slot gets both a connect and a disconnect call.
\<close>

theorem never_both_for_one_slot:
  "\<not> (Connect i g \<in> set (notifications get bp) \<and> Disconnect i g' \<in> set (notifications get bp))"
proof
  assume both: "Connect i g \<in> set (notifications get bp)
                  \<and> Disconnect i g' \<in> set (notifications get bp)"
  have "distinct (map slot (notifications get bp))"
    by (simp add: notifications_events slots_of_events)
  then have "inj_on slot (set (notifications get bp))"
    by (simp add: distinct_map)
  from inj_onD [OF this, of "Connect i g" "Disconnect i g'"] both
  show False by simp
qed

text \<open>
  C5: the calls of one pass come in strictly increasing order of slot index.
\<close>

theorem notifications_in_slot_order:
  "sorted_wrt (<) (map slot (notifications get bp))"
  by (simp add: notifications_events slots_of_events sorted_wrt_filter)

text \<open>
  C9: each call of \<^verbatim>\<open>setup\<close> overwrites both callback members, so after any sequence of
  registrations the object is the one a single registration of the last pair leaves, an
  empty callback included. A pass on it makes the calls of the second loop to the members
  as they are at each call: to the pair registered last before the pass, and from the
  moment a callback registers another pair during the pass, to that pair; a call of an
  empty member ends the pass. No pair registered earlier receives a call. When the last
  pair only changes the application state, every later pass completes, the pair stays
  registered, and the application state is the one obtained by handing the calls of all
  the passes, in order, to that pair alone.
\<close>

theorem last_registration_wins:
  "register_all (regs @ [(c, d)]) bp = Bluepad32_setup c d bp
   \<and> Bluepad32_update get (register_all (regs @ [(c, d)]) bp) w =
       (case deliver_all ((c, d), w)
               (events (currentConnectedGamepads get bp) (prevConnectedGamepads bp) 0
                  (fetched get bp)) of
          Inl e \<Rightarrow> Inl e
        | Inr ((onConnect', onDisconnect'), w') \<Rightarrow>
            Inr (\<lparr>prevConnectedGamepads = currentConnectedGamepads get bp,
                  gamepads = map (slot_after (currentConnectedGamepads get bp)
                                    (prevConnectedGamepads bp) 0 (fetched get bp))
                               [0..<length (gamepads bp)],
                  onConnect = onConnect', onDisconnect = onDisconnect'\<rparr>,
                 w',
                 map (slot_log (currentConnectedGamepads get bp))
                   (filter (changed (currentConnectedGamepads get bp) (prevConnectedGamepads bp))
                      [0..<length (gamepads bp)])))
   \<and> (\<exists>pv' gs'.
         update_all gets (register_all (regs @ [(Some (plain f), Some (plain h))]) bp) w =
           Inr (\<lparr>prevConnectedGamepads = pv', gamepads = gs',
                 onConnect = Some (plain f), onDisconnect = Some (plain h)\<rparr>,
                foldl (\<lambda>u e. case e of Connect i g \<Rightarrow> f i g u | Disconnect i g \<Rightarrow> h i g u) w
                  (calls_of_passes gets (prevConnectedGamepads bp) (gamepads bp))))"
proof -
  let ?bp = "Bluepad32_setup c d bp"
  have facts: "currentConnectedGamepads get (Bluepad32_setup c' d' bp) = currentConnectedGamepads get bp"
    "fetched get (Bluepad32_setup c' d' bp) = fetched get bp"
    "prevConnectedGamepads (Bluepad32_setup c' d' bp) = prevConnectedGamepads bp"
    "gamepads (Bluepad32_setup c' d' bp) = gamepads bp"
    "onConnect (Bluepad32_setup c' d' bp) = c'"
    "onDisconnect (Bluepad32_setup c' d' bp) = d'" for c' d'
    by (simp_all add: Bluepad32_setup_def currentConnectedGamepads_def fetched_def)
  have one: "register_all (regs @ [(c, d)]) bp = ?bp"
    by (rule register_all_last)
  have pass: "Bluepad32_update get ?bp w =
       (case deliver_all ((c, d), w)
               (events (currentConnectedGamepads get bp) (prevConnectedGamepads bp) 0
                  (fetched get bp)) of
          Inl e \<Rightarrow> Inl e
        | Inr ((onConnect', onDisconnect'), w') \<Rightarrow>
            Inr (\<lparr>prevConnectedGamepads = currentConnectedGamepads get bp,
                  gamepads = map (slot_after (currentConnectedGamepads get bp)
                                    (prevConnectedGamepads bp) 0 (fetched get bp))
                               [0..<length (gamepads bp)],
                  onConnect = onConnect', onDisconnect = onDisconnect'\<rparr>,
                 w',
                 map (slot_log (currentConnectedGamepads get bp))
                   (filter (changed (currentConnectedGamepads get bp) (prevConnectedGamepads bp))
                      [0..<length (gamepads bp)])))"
    unfolding update_closed [of get ?bp w] facts ..
  have later: "\<exists>pv' gs'.
         update_all gets (register_all (regs @ [(Some (plain f), Some (plain h))]) bp) w =
           Inr (\<lparr>prevConnectedGamepads = pv', gamepads = gs',
                 onConnect = Some (plain f), onDisconnect = Some (plain h)\<rparr>,
                foldl (\<lambda>u e. case e of Connect i g \<Rightarrow> f i g u | Disconnect i g \<Rightarrow> h i g u) w
                  (calls_of_passes gets (prevConnectedGamepads bp) (gamepads bp)))"
    unfolding register_all_last
    using update_all_plain [of "Bluepad32_setup (Some (plain f)) (Some (plain h)) bp" f h gets w]
    by (simp add: facts)
  show ?thesis
    unfolding one using pass later unfolding register_all_last by simp
qed

text \<open>
  Two slots, an earlier registration with the two recording callbacks swapped, then the
  registration of the pair in its order: a pass that connects slot 0 and a pass that
  disconnects it write down a connect and a disconnect, as the last pair does. Registering
  two empty callbacks last ends the connecting pass at its first call. And when the connect
  callback registers two empty callbacks during a pass that connects both slots, the call
  for slot 0 is made and the one for slot 1 ends the pass.
\<close>

theorem last_registration_wins_witness:
  "register_all ([(Some record_disconnect, Some record_connect)]
       @ [(Some record_connect, Some record_disconnect)])
     (Bluepad32 [\<lparr>state = absent, connected = False\<rparr>, \<lparr>state = absent, connected = False\<rparr>])
     = bp_empty
   \<and> update_all [platform_one, platform_none]
         (register_all ([(Some record_disconnect, Some record_connect)]
            @ [(Some record_connect, Some record_disconnect)])
           (Bluepad32 [\<lparr>state = absent, connected = False\<rparr>,
                       \<lparr>state = absent, connected = False\<rparr>])) [] =
       Inr (\<lparr>prevConnectedGamepads = 0,
             gamepads = [\<lparr>state = absent, connected = False\<rparr>,
                         \<lparr>state = absent, connected = False\<rparr>],
             onConnect = Some record_connect, onDisconnect = Some record_disconnect\<rparr>,
            [Connect 0 \<lparr>state = present, connected = True\<rparr>,
             Disconnect 0 \<lparr>state = absent, connected = True\<rparr>])
   \<and> Bluepad32_update platform_one
         (register_all ([(Some record_connect, Some record_disconnect)] @ [(None, None)])
           (Bluepad32 [\<lparr>state = absent, connected = False\<rparr>,
                       \<lparr>state = absent, connected = False\<rparr>])) [] =
       Inl Empty_callback
   \<and> Bluepad32_update platform_both
         (register_all ([] @ [(Some record_and_unregister, Some record_disconnect)])
           (Bluepad32 [\<lparr>state = absent, connected = False\<rparr>,
                       \<lparr>state = absent, connected = False\<rparr>])) [] =
       Inl Empty_callback"
proof -
  let ?new = "Bluepad32 [\<lparr>state = absent, connected = False\<rparr>,
                         \<lparr>state = absent, connected = False\<rparr>]
                :: (canonical_gamepad_state, canonical_gamepad_state notification list) Bluepad32"
  have a: "register_all ([(Some record_disconnect, Some record_connect)]
               @ [(Some record_connect, Some record_disconnect)]) ?new = bp_empty"
    using last_registration_wins
      [of "[(Some record_disconnect, Some record_connect)]" "Some record_connect"
          "Some record_disconnect" ?new]
    by (simp add: bp_empty_def)
  have b: "update_all [platform_one, platform_none] bp_empty [] =
       Inr (\<lparr>prevConnectedGamepads = 0,
             gamepads = [\<lparr>state = absent, connected = False\<rparr>,
                         \<lparr>state = absent, connected = False\<rparr>],
             onConnect = Some record_connect, onDisconnect = Some record_disconnect\<rparr>,
            [Connect 0 \<lparr>state = present, connected = True\<rparr>,
             Disconnect 0 \<lparr>state = absent, connected = True\<rparr>])"
    by (simp add: Bluepad32_update_def bp_empty_def Bluepad32_setup_def Bluepad32_def
        platform_one_def platform_none_def present_def absent_def fetch_loop.simps
        notify_loop.simps record_connect_def record_disconnect_def plain_def call_def)
  have c: "Bluepad32_update platform_one
         (register_all ([(Some record_connect, Some record_disconnect)] @ [(None, None)]) ?new) []
       = Inl Empty_callback"
    by (simp add: register_all_def Bluepad32_update_def Bluepad32_setup_def Bluepad32_def
        platform_one_def present_def absent_def fetch_loop.simps notify_loop.simps call_def)
  have d: "Bluepad32_update platform_both
         (register_all ([] @ [(Some record_and_unregister, Some record_disconnect)]) ?new) []
       = Inl Empty_callback"
    by (simp add: register_all_def Bluepad32_update_def Bluepad32_setup_def Bluepad32_def
        platform_both_def present_def absent_def fetch_loop.simps notify_loop.simps call_def
        record_and_unregister_def)
  show ?thesis
    using a b c d by simp
qed

text \<open>
  C10: after every call of \<^verbatim>\<open>update\<close> that has completed, with or without calls to the
  callbacks, the state of slot \<open>i\<close> is the snapshot this call read into it, and bit \<open>i\<close> of
  \<^verbatim>\<open>_prevConnectedGamepads\<close> is set exactly when the \<^verbatim>\<open>idx\<close> of that snapshot is not -1.
  The bitmask is an \<^verbatim>\<open>int\<close>: the slots are at most as many as its 32 bits.
\<close>

theorem previous_bitmask_matches_snapshot:
  assumes "Bluepad32_update get bp w = Inr (bp', w', lg)"
    and "i < length (gamepads bp)" and "length (gamepads bp) \<le> 32"
  shows "state (gamepads bp' ! i) = get i (state (gamepads bp ! i))
    \<and> (bit (prevConnectedGamepads bp') i \<longleftrightarrow> idx (state (gamepads bp' ! i)) \<noteq> - 1)"
proof -
  have "state (gamepads bp' ! i) = state (fetched get bp ! i)"
    using update_Inr(2) [OF assms(1)] assms(2) by (simp add: slot_after_def del: push_bit_of_1)
  then have st: "state (gamepads bp' ! i) = get i (state (gamepads bp ! i))"
    using assms(2) by (simp add: fetched_nth)
  have "bit (prevConnectedGamepads bp') i \<longleftrightarrow> idx (get i (state (gamepads bp ! i))) \<noteq> - 1"
    using update_Inr(1) [OF assms(1)] assms(2,3) by (simp add: currentConnectedGamepads_bit)
  then show ?thesis using st by simp
qed

theorem previous_bitmask_matches_snapshot_witness:
  "Bluepad32_update platform_one bp_empty [] =
     Inr (\<lparr>prevConnectedGamepads = 1,
           gamepads = [\<lparr>state = present, connected = True\<rparr>, \<lparr>state = absent, connected = False\<rparr>],
           onConnect = Some record_connect, onDisconnect = Some record_disconnect\<rparr>,
          [Connect 0 \<lparr>state = present, connected = True\<rparr>], [Gamepad_connected 0])
   \<and> Bluepad32_update platform_one bp_one [] = Inr (bp_one, [], [])
   \<and> 0 < length (gamepads bp_empty) \<and> length (gamepads bp_empty) \<le> 32
   \<and> 1 < length (gamepads bp_one) \<and> length (gamepads bp_one) \<le> 32
   \<and> state ([\<lparr>state = present, connected = True\<rparr>, \<lparr>state = absent, connected = False\<rparr>] ! 0)
       = platform_one 0 (state (gamepads bp_empty ! 0))
   \<and> (bit (1 :: 32 word) 0 \<longleftrightarrow> idx present \<noteq> - 1)
   \<and> state (gamepads bp_one ! 1) = platform_one 1 (state (gamepads bp_one ! 1))
   \<and> (bit (prevConnectedGamepads bp_one) 1 \<longleftrightarrow> idx (state (gamepads bp_one ! 1)) \<noteq> - 1)"
proof -
  have fired: "Bluepad32_update platform_one bp_empty [] =
     Inr (\<lparr>prevConnectedGamepads = 1,
           gamepads = [\<lparr>state = present, connected = True\<rparr>, \<lparr>state = absent, connected = False\<rparr>],
           onConnect = Some record_connect, onDisconnect = Some record_disconnect\<rparr>,
          [Connect 0 \<lparr>state = present, connected = True\<rparr>], [Gamepad_connected 0])"
    by (simp add: Bluepad32_update_def bp_empty_def Bluepad32_setup_def Bluepad32_def
        platform_one_def present_def absent_def fetch_loop.simps notify_loop.simps
        record_connect_def plain_def call_def)
  have early: "Bluepad32_update platform_one bp_one [] = Inr (bp_one, [], [])"
    by (simp add: Bluepad32_update_def bp_one_def platform_one_def present_def absent_def
        fetch_loop.simps)
  have h2: "0 < length (gamepads bp_empty)" and h3: "length (gamepads bp_empty) \<le> 32"
    and k2: "1 < length (gamepads bp_one)" and k3: "length (gamepads bp_one) \<le> 32"
    by (simp_all add: bp_empty_def Bluepad32_setup_def Bluepad32_def bp_one_def)
  show ?thesis
    using fired early h2 h3 k2 k3
      previous_bitmask_matches_snapshot [OF fired h2 h3]
      previous_bitmask_matches_snapshot [OF early k2 k3]
    by simp
qed


section \<open>The claims about the variant parser\<close>

subsection \<open>Division that truncates, by a positive divisor\<close>

lemma sdiv_pos: "0 < d \<Longrightarrow> (a::int) sdiv d = (if 0 \<le> a then a div d else - ((- a) div d))"
  by (simp add: signed_divide_int_def sgn_if)

lemma sdiv_pos_mono:
  assumes "0 < d" and "a \<le> b"
  shows "(a::int) sdiv d \<le> b sdiv d"
proof -
  consider "0 \<le> a" | "a < 0" "0 \<le> b" | "b < 0" using assms(2) by linarith
  then show ?thesis
  proof cases
    case 1
    then show ?thesis
      using assms by (simp add: sdiv_pos zdiv_mono1)
  next
    case 2
    have "0 \<le> (- a) div d" and "0 \<le> b div d"
      using 2 assms(1) by (simp_all add: pos_imp_zdiv_nonneg_iff)
    then show ?thesis
      using 2 assms(1) by (simp add: sdiv_pos)
  next
    case 3
    have "(- b) div d \<le> (- a) div d"
      using assms by (simp add: zdiv_mono1)
    then show ?thesis
      using 3 assms by (simp add: sdiv_pos)
  qed
qed

lemma sdiv_mult_self:
  assumes "0 < d"
  shows "(c * d) sdiv d = (c::int)"
proof -
  have "(- c * d) div d = - c"
    using assms by (subst nonzero_mult_div_cancel_right) simp_all
  then show ?thesis
    using assms by (simp add: sdiv_pos)
qed

subsection \<open>The scaled value\<close>

lemma clamp_mono: "v \<le> v' \<Longrightarrow> lo \<le> hi \<Longrightarrow> clamp lo hi v \<le> clamp lo hi v'"
  by (simp add: clamp_def)

lemma clamp_range: "lo \<le> hi \<Longrightarrow> lo \<le> clamp lo hi v \<and> clamp lo hi v \<le> hi"
  by (simp add: clamp_def)

lemma numerator_eq:
  "cmin * (hi - v) + cmax * (v - lo) = cmin * (hi - lo) + (cmax - cmin) * (v - (lo::int))"
  by (simp add: algebra_simps)

lemma numerator_mono:
  assumes "cmin \<le> cmax" and "v \<le> v'"
  shows "cmin * (hi - v) + cmax * (v - lo) \<le> cmin * (hi - v') + cmax * (v' - (lo::int))"
proof -
  have "(cmax - cmin) * (v - lo) \<le> (cmax - cmin) * (v' - lo)"
    using assms by (intro mult_left_mono) simp_all
  then show ?thesis
    unfolding numerator_eq [of cmin hi v] numerator_eq [of cmin hi v'] by simp
qed

lemma normalize_proper:
  "logical_min g < logical_max g \<Longrightarrow>
   normalize_value g r v =
     Some ((canonical_min r * (logical_max g - clamp (logical_min g) (logical_max g) v)
            + canonical_max r * (clamp (logical_min g) (logical_max g) v - logical_min g))
           sdiv (logical_max g - logical_min g))"
  by (simp add: normalize_value_def truncating_divide_def Let_def)

lemma canonical_min_le_max: "canonical_min r \<le> canonical_max r"
  by (simp add: canonical_max_def)

lemma normalize_mono:
  assumes "logical_min g < logical_max g" and "v \<le> v'"
  shows "\<exists>y y'. normalize_value g r v = Some y \<and> normalize_value g r v' = Some y' \<and> y \<le> y'"
proof -
  have "clamp (logical_min g) (logical_max g) v \<le> clamp (logical_min g) (logical_max g) v'"
    using assms by (simp add: clamp_mono)
  then show ?thesis
    using assms(1) canonical_min_le_max [of r]
    by (simp add: normalize_proper sdiv_pos_mono numerator_mono)
qed

lemma normalize_low:
  assumes "logical_min g < logical_max g" and "v \<le> logical_min g"
  shows "normalize_value g r v = Some (canonical_min r)"
proof -
  have "clamp (logical_min g) (logical_max g) v = logical_min g"
    using assms by (simp add: clamp_def)
  then show ?thesis
    using assms(1) by (simp add: normalize_proper sdiv_mult_self)
qed

lemma normalize_high:
  assumes "logical_min g < logical_max g" and "logical_max g \<le> v"
  shows "normalize_value g r v = Some (canonical_max r)"
proof -
  have "clamp (logical_min g) (logical_max g) v = logical_max g"
    using assms by (simp add: clamp_def)
  then show ?thesis
    using assms(1) by (simp add: normalize_proper sdiv_mult_self)
qed

lemma normalize_total: "\<exists>y. normalize_value g r v = Some y"
  by (simp add: normalize_value_def truncating_divide_def Let_def)

subsection \<open>The claims\<close>

text \<open>
  C6: the claim is about the values of the logical range and its two endpoints, so about
  a scaling context with \<open>logical_min < logical_max\<close>; the context without width is the
  malformed one, which C8 treats. For such a context the value that \<^verbatim>\<open>parse_usage\<close>
  stores for a recognised analog usage is the normalised one, and the normalisation maps
  \<open>logical_min\<close> to the canonical minimum of the field and \<open>logical_max\<close> to its
  canonical maximum exactly, is monotonically non-decreasing in the value, sends a value
  below the logical range to the canonical minimum and one above it to the canonical
  maximum, and for every value gives a result inside the canonical range: nothing wraps.
\<close>

theorem normalization_monotone_exact_clamped:
  assumes "usage_table p usage_page usage = Some (Analog f)"
    and "logical_min g < logical_max g"
  shows "parse_usage p st g usage_page usage x =
           map_option (\<lambda>y. st\<lparr>analog := (analog st)(f := y)\<rparr>)
             (normalize_value g (ranges p f) (sint x))
    \<and> normalize_value g (ranges p f) (logical_min g) = Some (canonical_min (ranges p f))
    \<and> normalize_value g (ranges p f) (logical_max g) = Some (canonical_max (ranges p f))
    \<and> (v \<le> v' \<longrightarrow>
         (\<exists>y y'. normalize_value g (ranges p f) v = Some y
            \<and> normalize_value g (ranges p f) v' = Some y' \<and> y \<le> y'))
    \<and> (lo < logical_min g \<longrightarrow>
         normalize_value g (ranges p f) lo = Some (canonical_min (ranges p f)))
    \<and> (logical_max g < hi \<longrightarrow>
         normalize_value g (ranges p f) hi = Some (canonical_max (ranges p f)))
    \<and> (\<exists>y. normalize_value g (ranges p f) u = Some y
          \<and> canonical_min (ranges p f) \<le> y \<and> y \<le> canonical_max (ranges p f))"
proof -
  let ?r = "ranges p f"
  have stored: "parse_usage p st g usage_page usage x =
           map_option (\<lambda>y. st\<lparr>analog := (analog st)(f := y)\<rparr>)
             (normalize_value g ?r (sint x))"
    using assms(1) by (simp add: parse_usage_def split: option.splits)
  have low: "normalize_value g ?r (logical_min g) = Some (canonical_min ?r)"
    using assms(2) by (simp add: normalize_low)
  have high: "normalize_value g ?r (logical_max g) = Some (canonical_max ?r)"
    using assms(2) by (simp add: normalize_high)
  have mono: "\<exists>y y'. normalize_value g ?r v = Some y \<and> normalize_value g ?r v' = Some y'
                \<and> y \<le> y'"
    if "v \<le> v'"
    using normalize_mono [OF assms(2) that, of ?r] .
  have bounds: "\<exists>y. normalize_value g ?r u = Some y
                  \<and> canonical_min ?r \<le> y \<and> y \<le> canonical_max ?r"
  proof (cases "u \<le> logical_min g")
    case True
    then show ?thesis
      using assms(2) canonical_min_le_max [of ?r] by (simp add: normalize_low)
  next
    case False
    then have "logical_min g \<le> u" by simp
    from normalize_mono [OF assms(2) this, of ?r] low
    obtain y where y: "normalize_value g ?r u = Some y" "canonical_min ?r \<le> y" by auto
    show ?thesis
    proof (cases "u \<le> logical_max g")
      case True
      from normalize_mono [OF assms(2) this, of ?r] high y show ?thesis by auto
    next
      case False
      then show ?thesis
        using assms(2) canonical_min_le_max [of ?r] by (simp add: normalize_high)
    qed
  qed
  show ?thesis
    using stored low high mono bounds assms(2)
    by (simp add: normalize_low normalize_high)
qed

theorem normalization_monotone_exact_clamped_witness:
  "usage_table example_parser 1 48 = Some (Analog Left_X)
   \<and> logical_min example_globals < logical_max example_globals
   \<and> (10::int) \<le> 200 \<and> - 5 < logical_min example_globals \<and> logical_max example_globals < 300
   \<and> parse_usage example_parser pressed_state example_globals 1 48 100 =
       map_option (\<lambda>y. pressed_state\<lparr>analog := (analog pressed_state)(Left_X := y)\<rparr>)
         (normalize_value example_globals (ranges example_parser Left_X) (sint (100 :: 32 word)))
   \<and> normalize_value example_globals (ranges example_parser Left_X) 0 = Some (- 512)
   \<and> normalize_value example_globals (ranges example_parser Left_X) 255 = Some 511
   \<and> (\<exists>y y'. normalize_value example_globals (ranges example_parser Left_X) 10 = Some y
         \<and> normalize_value example_globals (ranges example_parser Left_X) 200 = Some y' \<and> y \<le> y')
   \<and> normalize_value example_globals (ranges example_parser Left_X) (- 5) = Some (- 512)
   \<and> normalize_value example_globals (ranges example_parser Left_X) 300 = Some 511"
proof -
  have h1: "usage_table example_parser 1 48 = Some (Analog Left_X)"
    by (simp add: example_parser_def)
  have h2: "logical_min example_globals < logical_max example_globals"
    by (simp add: example_globals_def)
  have v: "canonical_min (ranges example_parser Left_X) = - 512"
    "canonical_max (ranges example_parser Left_X) = 511"
    "logical_min example_globals = 0" "logical_max example_globals = 255"
    by (simp_all add: example_parser_def example_ranges_def example_globals_def
        canonical_max_def)
  show ?thesis
    using h1 h2
      normalization_monotone_exact_clamped [OF h1 h2, of pressed_state 100 10 200 "- 5" 300 0]
    by (simp add: v)
qed

text \<open>
  C7: a \<open>(usage_page, usage)\<close> pair that the variant does not recognise leaves the whole
  Canonical Gamepad State as it was, for every value and every scaling context, and the
  call returns normally.
\<close>

theorem unrecognised_usage_ignored:
  assumes "usage_table p usage_page usage = None"
  shows "parse_usage p st g usage_page usage x = Some st"
  using assms by (simp add: parse_usage_def)

theorem unrecognised_usage_ignored_witness:
  "usage_table example_parser 12 1 = None
   \<and> parse_usage example_parser pressed_state example_globals 12 1 77 = Some pressed_state"
proof -
  have h: "usage_table example_parser 12 1 = None"
    by (simp add: example_parser_def)
  show ?thesis
    using h unrecognised_usage_ignored [OF h, of pressed_state example_globals 77] by simp
qed

text \<open>
  C8: for a scaling context with \<open>logical_min = logical_max\<close> and every value, the
  normalisation is defined: no division by zero happens, and the result is the neutral
  value of the field, which is what \<^verbatim>\<open>parse_usage\<close> stores for a recognised analog usage.
\<close>

theorem zero_width_range_gives_neutral:
  assumes "logical_min g = logical_max g"
  shows "normalize_value g r v = Some (neutral r)
    \<and> (usage_table p usage_page usage = Some (Analog f) \<longrightarrow>
         parse_usage p st g usage_page usage x =
           Some (st\<lparr>analog := (analog st)(f := neutral (ranges p f))\<rparr>))"
  using assms by (simp add: normalize_value_def parse_usage_def)

theorem zero_width_range_gives_neutral_witness:
  "logical_min zero_width_globals = logical_max zero_width_globals
   \<and> usage_table example_parser 1 48 = Some (Analog Left_X)
   \<and> normalize_value zero_width_globals (example_ranges Left_X) 99 = Some (neutral (example_ranges Left_X))
   \<and> parse_usage example_parser pressed_state zero_width_globals 1 48 99 =
       Some (pressed_state\<lparr>analog := (analog pressed_state)(Left_X := neutral (ranges example_parser Left_X))\<rparr>)"
proof -
  have h1: "logical_min zero_width_globals = logical_max zero_width_globals"
    by (simp add: zero_width_globals_def)
  have h2: "usage_table example_parser 1 48 = Some (Analog Left_X)"
    by (simp add: example_parser_def)
  show ?thesis
    using h1 h2
      zero_width_range_gives_neutral [OF h1, of "example_ranges Left_X" 99 example_parser 1 48
        Left_X pressed_state 99]
    by simp
qed


end
